theory Spec2Isabelle
  imports Main "HOL-Library.Word" "HOL-Library.Sublist"
begin

section \<open>Data crossing the binding boundary\<close>

text \<open>
  The file \<^verbatim>\<open>rosbag2_py/src/rosbag2_py/_reader.cpp\<close> is the Python binding of the
  rosbag2 readers: a class template \<^verbatim>\<open>Reader<T>\<close> that owns a \<^verbatim>\<open>rosbag2_cpp::Reader\<close>
  built over a \<^verbatim>\<open>T\<close> and forwards every call to it, the free function
  \<^verbatim>\<open>get_registered_readers\<close>, and the module table that binds both instances of
  the template.
\<close>

type_synonym byte = "8 word"

text \<open>
  Outcomes other than a normal return. The first four are the exceptions of the reader
  stack. \<open>UndefinedBehaviour\<close> marks the places where the C++ of the binding reads
  through a null pointer or past the end of a buffer. \<open>UnicodeDecodeError\<close> is what the
  conversion of a \<^verbatim>\<open>std::string\<close> to a Python str raises, and \<open>AttributeError\<close> what
  Python raises for a method that a class does not bind.
\<close>

datatype error =
  InvalidState | EndOfStream | StorageOpen | DataCorruption | UndefinedBehaviour
| UnicodeDecodeError | AttributeError

text \<open>
  \<^verbatim>\<open>rcutils_uint8_array_t\<close>: \<open>buffer\<close> is the memory that can be read from the
  pointer of that name (empty for a null pointer), \<open>buffer_length\<close> the \<^verbatim>\<open>size_t\<close>
  field of that name.
\<close>

record rcutils_uint8_array_t =
  buffer :: "byte list"
  buffer_length :: nat

text \<open>
  \<^verbatim>\<open>rosbag2_storage::SerializedBagMessage\<close>, with the three fields that
  \<^verbatim>\<open>Reader::read_next\<close> reads. \<open>serialized_data\<close> is a shared pointer: \<open>None\<close> is
  the null pointer. \<open>time_stamp\<close> is an \<^verbatim>\<open>int64_t\<close>.
\<close>

record serialized_bag_message =
  serialized_data :: "rcutils_uint8_array_t option"
  time_stamp :: "64 word"
  topic_name :: string

text \<open>
  Modelled from the spec: the declarations of \<^verbatim>\<open>rosbag2_storage::TopicMetadata\<close>,
  \<^verbatim>\<open>StorageOptions\<close>, \<^verbatim>\<open>StorageFilter\<close> and \<^verbatim>\<open>rosbag2_cpp::ConverterOptions\<close> are in
  headers that are not among the sources; the binding passes their values through. The
  fields are those of section 3 of the specification.
\<close>

record topic_metadata =
  name :: string
  type :: string
  serialization_format :: string

record storage_options =
  uri :: string
  storage_id :: string

record converter_options =
  input_serialization_format :: string
  output_serialization_format :: string

record storage_filter =
  topics :: "string list"

text \<open>
  The tuple that \<^verbatim>\<open>read_next\<close> hands to Python: a str, a bytes object, an int. The
  str is written as the bytes of its UTF-8 encoding.
\<close>

type_synonym py_tuple = "string \<times> byte list \<times> int"

section \<open>The reader behind the binding\<close>

text \<open>
  \<^verbatim>\<open>reader_\<close> is a \<^verbatim>\<open>rosbag2_cpp::Reader\<close> over the template argument \<^verbatim>\<open>T\<close>. Its
  class is declared in \<^verbatim>\<open>rosbag2_cpp/reader.hpp\<close>; the binding only calls the six
  methods below. The binding is modelled over any such reader: a state type \<open>'s\<close>,
  the state of a newly made reader, and one function per method. A method gives the
  value it returns or the exception it throws, and in both cases the state in which it
  leaves the reader.
\<close>

record 's reader_interface =
  impl_new :: "'s"
  impl_open :: "storage_options \<Rightarrow> converter_options \<Rightarrow> 's \<Rightarrow> (error + unit) \<times> 's"
  impl_has_next :: "'s \<Rightarrow> (error + bool) \<times> 's"
  impl_read_next :: "'s \<Rightarrow> (error + serialized_bag_message option) \<times> 's"
  impl_get_all_topics_and_types :: "'s \<Rightarrow> (error + topic_metadata list) \<times> 's"
  impl_set_filter :: "storage_filter \<Rightarrow> 's \<Rightarrow> (error + unit) \<times> 's"
  impl_reset_filter :: "'s \<Rightarrow> (error + unit) \<times> 's"

section \<open>The class template Reader\<close>

text \<open>The constructor: a new \<^verbatim>\<open>rosbag2_cpp::Reader\<close> over a new \<^verbatim>\<open>T\<close>.\<close>

definition Reader :: "'s reader_interface \<Rightarrow> 's" where
  "Reader reader = impl_new reader"

text \<open>
  \<^verbatim>\<open>Reader::open\<close>, under the name \<open>open_bag\<close> because \<open>open\<close> is a keyword of
  Isabelle, and the forwarding member functions.
\<close>

definition open_bag ::
  "'s reader_interface \<Rightarrow> storage_options \<Rightarrow> converter_options \<Rightarrow> 's \<Rightarrow> (error + unit) \<times> 's" where
  "open_bag reader storage_options converter_options s =
     impl_open reader storage_options converter_options s"

definition has_next :: "'s reader_interface \<Rightarrow> 's \<Rightarrow> (error + bool) \<times> 's" where
  "has_next reader s = impl_has_next reader s"

text \<open>
  \<^verbatim>\<open>std::string serialized_data(p, p + n)\<close>: the \<open>n\<close> bytes from \<open>p\<close> on, whatever
  their values. Reading past the memory behind \<open>p\<close> is undefined behaviour.
\<close>

definition string_of_range :: "byte list \<Rightarrow> nat \<Rightarrow> error + byte list" where
  "string_of_range mem n = (if n \<le> length mem then Inr (take n mem) else Inl UndefinedBehaviour)"

text \<open>
  \<^verbatim>\<open>pybind11::make_tuple\<close> converts \<^verbatim>\<open>next->topic_name\<close>, a \<^verbatim>\<open>std::string\<close>, to a
  Python str: pybind11 decodes the bytes as UTF-8 with Python's strict decoder and throws
  when they are not well-formed. \<open>utf8_well_formed\<close> is the table of well-formed byte
  sequences of the Unicode standard, which that decoder follows (no overlong forms, no
  surrogates, nothing above U+10FFFF), over the values of the bytes.
\<close>

definition continuation :: "nat \<Rightarrow> bool" where
  "continuation b = (0x80 \<le> b \<and> b \<le> 0xBF)"

fun utf8_well_formed :: "nat list \<Rightarrow> bool" where
  "utf8_well_formed [] = True"
| "utf8_well_formed (b0 # bs) =
     (if b0 < 0x80 then utf8_well_formed bs
      else if 0xC2 \<le> b0 \<and> b0 \<le> 0xDF then
        (case bs of
           b1 # bs1 \<Rightarrow> continuation b1 \<and> utf8_well_formed bs1
         | _ \<Rightarrow> False)
      else if 0xE0 \<le> b0 \<and> b0 \<le> 0xEF then
        (case bs of
           b1 # b2 # bs2 \<Rightarrow>
             (if b0 = 0xE0 then 0xA0 \<le> b1 \<and> b1 \<le> 0xBF
              else if b0 = 0xED then 0x80 \<le> b1 \<and> b1 \<le> 0x9F
              else continuation b1) \<and>
             continuation b2 \<and> utf8_well_formed bs2
         | _ \<Rightarrow> False)
      else if 0xF0 \<le> b0 \<and> b0 \<le> 0xF4 then
        (case bs of
           b1 # b2 # b3 # bs3 \<Rightarrow>
             (if b0 = 0xF0 then 0x90 \<le> b1 \<and> b1 \<le> 0xBF
              else if b0 = 0xF4 then 0x80 \<le> b1 \<and> b1 \<le> 0x8F
              else continuation b1) \<and>
             continuation b2 \<and> continuation b3 \<and> utf8_well_formed bs3
         | _ \<Rightarrow> False)
      else False)"

definition str_cast :: "string \<Rightarrow> error + string" where
  "str_cast t = (if utf8_well_formed (map of_char t) then Inr t else Inl UnicodeDecodeError)"

text \<open>
  \<^verbatim>\<open>Reader::read_next\<close>. An exception of \<^verbatim>\<open>reader_->read_next()\<close> leaves the
  function at once. \<^verbatim>\<open>next->serialized_data\<close> dereferences \<open>next\<close>, and
  \<^verbatim>\<open>*next->serialized_data.get()\<close> the data pointer. The bytes are copied, and the tuple
  is made of the topic name as a str, the copied bytes and the time stamp as a Python int
  (the signed value of the \<^verbatim>\<open>int64_t\<close>). Whatever happens after
  \<^verbatim>\<open>reader_->read_next()\<close> has returned, the reader stays as that call left it.
\<close>

definition read_next :: "'s reader_interface \<Rightarrow> 's \<Rightarrow> (error + py_tuple) \<times> 's" where
  "read_next reader s =
     (case impl_read_next reader s of
        (Inl e, s') \<Rightarrow> (Inl e, s')
      | (Inr next, s') \<Rightarrow>
          (case next of
             None \<Rightarrow> (Inl UndefinedBehaviour, s')
           | Some m \<Rightarrow>
               (case serialized_data m of
                  None \<Rightarrow> (Inl UndefinedBehaviour, s')
                | Some rcutils_data \<Rightarrow>
                    (case string_of_range (buffer rcutils_data) (buffer_length rcutils_data) of
                       Inl e \<Rightarrow> (Inl e, s')
                     | Inr bytes \<Rightarrow>
                         (case str_cast (topic_name m) of
                            Inl e \<Rightarrow> (Inl e, s')
                          | Inr t \<Rightarrow> (Inr (t, bytes, sint (time_stamp m)), s'))))))"

definition get_all_topics_and_types ::
  "'s reader_interface \<Rightarrow> 's \<Rightarrow> (error + topic_metadata list) \<times> 's" where
  "get_all_topics_and_types reader s = impl_get_all_topics_and_types reader s"

definition set_filter :: "'s reader_interface \<Rightarrow> storage_filter \<Rightarrow> 's \<Rightarrow> (error + unit) \<times> 's" where
  "set_filter reader storage_filter s = impl_set_filter reader storage_filter s"

definition reset_filter :: "'s reader_interface \<Rightarrow> 's \<Rightarrow> (error + unit) \<times> 's" where
  "reset_filter reader s = impl_reset_filter reader s"

section \<open>get_registered_readers\<close>

text \<open>
  A \<^verbatim>\<open>std::unordered_set<std::string>\<close> is modelled as the list of its elements, each
  once; the order of the list carries no meaning. \<open>us_insert\<close> is the insertion of one
  element, which leaves the set alone when the element is there already, and
  \<open>us_insert_range\<close> the insertion of an iterator range.
\<close>

type_synonym 'a unordered_set = "'a list"

definition us_insert :: "'a \<Rightarrow> 'a unordered_set \<Rightarrow> 'a unordered_set" where
  "us_insert x s = (if x \<in> set s then s else s @ [x])"

fun us_insert_range :: "'a list \<Rightarrow> 'a unordered_set \<Rightarrow> 'a unordered_set" where
  "us_insert_range [] s = s"
| "us_insert_range (x # xs) s = us_insert_range xs (us_insert x s)"

datatype storage_interface = ReadWriteInterface | ReadOnlyInterface

text \<open>
  Modelled from the spec: \<^verbatim>\<open>rosbag2_cpp::plugins::get_class_plugins\<close> is declared in
  \<^verbatim>\<open>rosbag2_cpp/plugins/plugin_utils.hpp\<close>, which is not among the sources. It returns
  the set of the backend identifiers advertised under one capability. The plugin
  environment \<open>env\<close> gives, for each capability, the identifiers as the discovery scan
  lists them (in any order, repeated or not).
\<close>

definition get_class_plugins ::
  "(storage_interface \<Rightarrow> string list) \<Rightarrow> storage_interface \<Rightarrow> string unordered_set" where
  "get_class_plugins env i = us_insert_range (env i) []"

definition get_registered_readers :: "(storage_interface \<Rightarrow> string list) \<Rightarrow> string unordered_set" where
  "get_registered_readers env =
     (let combined_plugins = get_class_plugins env ReadWriteInterface;
          read_only_plugins = get_class_plugins env ReadOnlyInterface
      in us_insert_range read_only_plugins combined_plugins)"

section \<open>The module table\<close>

text \<open>
  \<^verbatim>\<open>PYBIND11_MODULE(_reader, m)\<close> binds two Python classes, each an instance of the
  template: \<^verbatim>\<open>SequentialReader\<close> is \<^verbatim>\<open>Reader<rosbag2_cpp::readers::SequentialReader>\<close>
  and \<^verbatim>\<open>SequentialCompressionReader\<close> is
  \<^verbatim>\<open>Reader<rosbag2_compression::SequentialCompressionReader>\<close>. \<open>class_def\<close> lists the
  names each class binds with \<^verbatim>\<open>.def\<close>, in the order of the source.
\<close>

datatype reader_impl = SequentialReader | SequentialCompressionReader

fun class_def :: "reader_impl \<Rightarrow> string list" where
  "class_def SequentialReader =
     [''open'', ''read_next'', ''has_next'', ''get_all_topics_and_types'',
      ''set_filter'', ''reset_filter'']"
| "class_def SequentialCompressionReader =
     [''open'', ''read_next'', ''has_next'', ''get_all_topics_and_types'',
      ''set_filter'', ''reset_filter'']"

text \<open>A call from Python: the method with its arguments, and the value it returns.\<close>

datatype method_call =
  Call_open storage_options converter_options
| Call_read_next
| Call_has_next
| Call_get_all_topics_and_types
| Call_set_filter storage_filter
| Call_reset_filter

datatype py_value = PyNone | PyBool bool | PyTuple py_tuple | PyList "topic_metadata list"

fun method_name :: "method_call \<Rightarrow> string" where
  "method_name (Call_open _ _) = ''open''"
| "method_name Call_read_next = ''read_next''"
| "method_name Call_has_next = ''has_next''"
| "method_name Call_get_all_topics_and_types = ''get_all_topics_and_types''"
| "method_name (Call_set_filter _) = ''set_filter''"
| "method_name Call_reset_filter = ''reset_filter''"

text \<open>
  Each bound name points to the member function of the same name. The value returned is
  converted to a Python object; an exception goes to the caller. In both cases the reader
  is as the member function left it.
\<close>

fun call_method :: "'s reader_interface \<Rightarrow> method_call \<Rightarrow> 's \<Rightarrow> (error + py_value) \<times> 's" where
  "call_method reader (Call_open so co) s =
     (case open_bag reader so co s of
        (Inl e, s') \<Rightarrow> (Inl e, s') | (Inr u, s') \<Rightarrow> (Inr PyNone, s'))"
| "call_method reader Call_read_next s =
     (case read_next reader s of
        (Inl e, s') \<Rightarrow> (Inl e, s') | (Inr t, s') \<Rightarrow> (Inr (PyTuple t), s'))"
| "call_method reader Call_has_next s =
     (case has_next reader s of
        (Inl e, s') \<Rightarrow> (Inl e, s') | (Inr b, s') \<Rightarrow> (Inr (PyBool b), s'))"
| "call_method reader Call_get_all_topics_and_types s =
     (case get_all_topics_and_types reader s of
        (Inl e, s') \<Rightarrow> (Inl e, s') | (Inr ts, s') \<Rightarrow> (Inr (PyList ts), s'))"
| "call_method reader (Call_set_filter f) s =
     (case set_filter reader f s of
        (Inl e, s') \<Rightarrow> (Inl e, s') | (Inr u, s') \<Rightarrow> (Inr PyNone, s'))"
| "call_method reader Call_reset_filter s =
     (case reset_filter reader s of
        (Inl e, s') \<Rightarrow> (Inl e, s') | (Inr u, s') \<Rightarrow> (Inr PyNone, s'))"

section \<open>The sequential readers\<close>

text \<open>
  Modelled from the spec: the classes \<^verbatim>\<open>rosbag2_cpp::Reader\<close>,
  \<^verbatim>\<open>rosbag2_cpp::readers::SequentialReader\<close> and
  \<^verbatim>\<open>rosbag2_compression::SequentialCompressionReader\<close> are only included by
  \<^verbatim>\<open>_reader.cpp\<close>; their code is not among the sources. The definitions of this section
  follow sections 3, 4.2, 4.3, 4.4 and 7 of the specification.

  A log is the sequence of its records, each with a topic name, a payload, a time stamp
  and the backend's mark that the payload is compressed, together with the topic index.
\<close>

record stored_record =
  rec_topic :: string
  rec_payload :: "byte list"
  rec_timestamp :: "64 word"
  rec_compressed :: bool

record bag =
  records :: "stored_record list"
  topics_and_types :: "topic_metadata list"

text \<open>
  Modelled from the spec: an opened reader holds the topic index of its log, the records
  the backend cursor has not passed yet, and the active filter. A reader is \<open>Unopened\<close>
  after construction; it is exhausted when \<open>has_next\<close> reports false.
\<close>

record opened_reader =
  all_topics :: "topic_metadata list"
  remaining :: "stored_record list"
  active_filter :: storage_filter

datatype reader_state = Unopened | Opened opened_reader

text \<open>
  Modelled from the spec: the storage filter allows a topic name when its set of allowed
  names is empty or holds the name; the all-pass filter has the empty set.
\<close>

definition allowed :: "storage_filter \<Rightarrow> string \<Rightarrow> bool" where
  "allowed f t = (topics f = [] \<or> t \<in> set (topics f))"

definition all_pass :: storage_filter where
  "all_pass = \<lparr>topics = []\<rparr>"

text \<open>
  Modelled from the spec (4.4): the skipping loop. Records whose topic is not allowed are
  discarded and the backend is advanced again, until a record matches or none is left.
\<close>

fun advance :: "storage_filter \<Rightarrow> stored_record list \<Rightarrow> stored_record list" where
  "advance f [] = []"
| "advance f (x # xs) = (if allowed f (rec_topic x) then x # xs else advance f xs)"

text \<open>
  Modelled from the spec (4.2): \<open>open\<close> attaches the backend that the storage options
  name. \<open>backends\<close> stands for the storage layer: the log behind the options, or \<open>None\<close>
  when the backend or the URI is invalid. A second \<open>open\<close> is an invalid-state error. A
  call that fails leaves the reader in the state it had.
\<close>

definition sequential_open ::
  "(storage_options \<Rightarrow> bag option) \<Rightarrow> storage_options \<Rightarrow> converter_options \<Rightarrow>
   reader_state \<Rightarrow> (error + unit) \<times> reader_state" where
  "sequential_open backends so co s =
     (case s of
        Opened r \<Rightarrow> (Inl InvalidState, s)
      | Unopened \<Rightarrow>
          (case backends so of
             None \<Rightarrow> (Inl StorageOpen, s)
           | Some b \<Rightarrow>
               (Inr (),
                Opened \<lparr>all_topics = topics_and_types b, remaining = records b,
                        active_filter = all_pass\<rparr>)))"

text \<open>
  Modelled from the spec (4.2): \<open>has_next\<close> accounts for the filter, and changes nothing.
\<close>

definition sequential_has_next :: "reader_state \<Rightarrow> (error + bool) \<times> reader_state" where
  "sequential_has_next s =
     (case s of
        Unopened \<Rightarrow> (Inl InvalidState, s)
      | Opened r \<Rightarrow> (Inr (advance (active_filter r) (remaining r) \<noteq> []), s))"

text \<open>
  Modelled from the spec (4.3): the payload a reader hands out for a stored record. It is
  what the log holds, but for the compression reader on a record marked as compressed:
  there it is the decoded payload, and a payload the codec cannot decode is a
  data-corruption error. The codec is the parameter \<open>decompress\<close>.
\<close>

definition decoded ::
  "reader_impl \<Rightarrow> (byte list \<Rightarrow> byte list option) \<Rightarrow> stored_record \<Rightarrow> error + byte list" where
  "decoded T decompress x =
     (if T = SequentialCompressionReader \<and> rec_compressed x
      then (case decompress (rec_payload x) of
              None \<Rightarrow> Inl DataCorruption
            | Some bytes \<Rightarrow> Inr bytes)
      else Inr (rec_payload x))"

text \<open>
  Modelled from the spec (3, 4.3): the message built for a record; topic name and time
  stamp are the record's.
\<close>

definition to_message :: "stored_record \<Rightarrow> byte list \<Rightarrow> serialized_bag_message" where
  "to_message x bytes =
     \<lparr>serialized_data = Some \<lparr>buffer = bytes, buffer_length = length bytes\<rparr>,
      time_stamp = rec_timestamp x, topic_name = rec_topic x\<rparr>"

text \<open>
  Modelled from the spec (4.3): the message for a record, or the data-corruption error.
\<close>

definition deliver ::
  "reader_impl \<Rightarrow> (byte list \<Rightarrow> byte list option) \<Rightarrow> stored_record \<Rightarrow>
   error + serialized_bag_message" where
  "deliver T decompress x =
     (case decoded T decompress x of
        Inl e \<Rightarrow> Inl e
      | Inr bytes \<Rightarrow> Inr (to_message x bytes))"

text \<open>
  Modelled from the spec (4.2, 4.4): \<open>read_next\<close> advances the backend cursor to the next
  allowed record, discarding the records it skips, and returns that record, leaving the
  cursor behind it. When the backend is exhausted on the way, all records are discarded
  and the call is an end-of-stream error. A record that the backend has surfaced and that
  cannot be decoded is a data-corruption error; the cursor is behind it.
\<close>

definition sequential_read_next ::
  "reader_impl \<Rightarrow> (byte list \<Rightarrow> byte list option) \<Rightarrow> reader_state \<Rightarrow>
   (error + serialized_bag_message option) \<times> reader_state" where
  "sequential_read_next T decompress s =
     (case s of
        Unopened \<Rightarrow> (Inl InvalidState, s)
      | Opened r \<Rightarrow>
          (case advance (active_filter r) (remaining r) of
             [] \<Rightarrow> (Inl EndOfStream, Opened (r\<lparr>remaining := []\<rparr>))
           | x # xs \<Rightarrow>
               (case deliver T decompress x of
                  Inl e \<Rightarrow> (Inl e, Opened (r\<lparr>remaining := xs\<rparr>))
                | Inr m \<Rightarrow> (Inr (Some m), Opened (r\<lparr>remaining := xs\<rparr>)))))"

text \<open>
  Modelled from the spec (4.2): \<open>get_all_topics_and_types\<close> returns the topic index of
  the log; \<open>set_filter\<close> replaces the active filter and \<open>reset_filter\<close> puts the
  all-pass filter in its place. None of them moves the cursor, and each is an
  invalid-state error on a reader that is not opened.
\<close>

definition sequential_get_all_topics_and_types ::
  "reader_state \<Rightarrow> (error + topic_metadata list) \<times> reader_state" where
  "sequential_get_all_topics_and_types s =
     (case s of
        Unopened \<Rightarrow> (Inl InvalidState, s)
      | Opened r \<Rightarrow> (Inr (all_topics r), s))"

definition sequential_set_filter ::
  "storage_filter \<Rightarrow> reader_state \<Rightarrow> (error + unit) \<times> reader_state" where
  "sequential_set_filter f s =
     (case s of
        Unopened \<Rightarrow> (Inl InvalidState, s)
      | Opened r \<Rightarrow> (Inr (), Opened (r\<lparr>active_filter := f\<rparr>)))"

definition sequential_reset_filter :: "reader_state \<Rightarrow> (error + unit) \<times> reader_state" where
  "sequential_reset_filter s =
     (case s of
        Unopened \<Rightarrow> (Inl InvalidState, s)
      | Opened r \<Rightarrow> (Inr (), Opened (r\<lparr>active_filter := \<lparr>topics = []\<rparr>\<rparr>)))"

text \<open>
  Modelled from the spec: the \<^verbatim>\<open>rosbag2_cpp::Reader\<close> that the constructor of
  \<^verbatim>\<open>Reader<T>\<close> makes, for each of the two template arguments of the module table. It
  is not opened, and its methods are those of the sequential reader above.
\<close>

definition rosbag2_cpp_Reader ::
  "reader_impl \<Rightarrow> (byte list \<Rightarrow> byte list option) \<Rightarrow> (storage_options \<Rightarrow> bag option) \<Rightarrow>
   reader_state reader_interface" where
  "rosbag2_cpp_Reader T decompress backends =
     \<lparr>impl_new = Unopened,
      impl_open = sequential_open backends,
      impl_has_next = sequential_has_next,
      impl_read_next = sequential_read_next T decompress,
      impl_get_all_topics_and_types = sequential_get_all_topics_and_types,
      impl_set_filter = sequential_set_filter,
      impl_reset_filter = sequential_reset_filter\<rparr>"

text \<open>
  A method call on an object of one of the two Python classes, and a sequence of calls
  with the values (or exceptions) they give one after the other.
\<close>

definition py_call ::
  "reader_impl \<Rightarrow> (byte list \<Rightarrow> byte list option) \<Rightarrow> (storage_options \<Rightarrow> bag option) \<Rightarrow>
   method_call \<Rightarrow> reader_state \<Rightarrow> (error + py_value) \<times> reader_state" where
  "py_call T decompress backends c s =
     (if method_name c \<in> set (class_def T)
      then call_method (rosbag2_cpp_Reader T decompress backends) c s
      else (Inl AttributeError, s))"

fun run ::
  "reader_impl \<Rightarrow> (byte list \<Rightarrow> byte list option) \<Rightarrow> (storage_options \<Rightarrow> bag option) \<Rightarrow>
   method_call list \<Rightarrow> reader_state \<Rightarrow> (error + py_value) list \<times> reader_state" where
  "run T decompress backends [] s = ([], s)"
| "run T decompress backends (c # cs) s =
     (case py_call T decompress backends c s of
        (v, s1) \<Rightarrow>
          (case run T decompress backends cs s1 of
             (vs, s2) \<Rightarrow> (v # vs, s2)))"

text \<open>
  Modelled from the spec (2, 8): a full iteration, as a caller of the binding writes it.
  While \<open>has_next\<close> reports true, \<open>read_next\<close>. The result is the list of the tuples
  read, or the first exception.
\<close>

fun pending :: "reader_state \<Rightarrow> nat" where
  "pending Unopened = 0"
| "pending (Opened r) = length (remaining r)"

function read_all ::
  "reader_impl \<Rightarrow> (byte list \<Rightarrow> byte list option) \<Rightarrow> (storage_options \<Rightarrow> bag option) \<Rightarrow>
   reader_state \<Rightarrow> error + py_tuple list" where
  "read_all T decompress backends s =
     (case has_next (rosbag2_cpp_Reader T decompress backends) s of
        (Inl e, s1) \<Rightarrow> Inl e
      | (Inr avail, s1) \<Rightarrow>
          (if avail
           then (case read_next (rosbag2_cpp_Reader T decompress backends) s1 of
                   (Inl e, s2) \<Rightarrow> Inl e
                 | (Inr t, s2) \<Rightarrow>
                     (case read_all T decompress backends s2 of
                        Inl e \<Rightarrow> Inl e
                      | Inr ts \<Rightarrow> Inr (t # ts)))
           else Inr []))"
  by pat_completeness auto
termination
proof (relation "measure (\<lambda>(T, decompress, backends, s). pending s)")
  show "wf (measure (\<lambda>(T, decompress, backends, s). pending s))"
    by simp
next
  fix T :: reader_impl and decompress :: "byte list \<Rightarrow> byte list option"
    and backends :: "storage_options \<Rightarrow> bag option"
    and s s1 s2 :: reader_state and x y avail t
  assume h: "(x, s1) = has_next (rosbag2_cpp_Reader T decompress backends) s"
    and x: "x = Inr avail" and avail
    and r: "(y, s2) = read_next (rosbag2_cpp_Reader T decompress backends) s1"
    and y: "y = Inr t"
  have adv: "length (advance f xs) \<le> length xs" for f xs
    by (induction xs) auto
  from h x have s1: "s1 = s"
    by (auto simp: has_next_def rosbag2_cpp_Reader_def sequential_has_next_def
        split: reader_state.splits)
  from r y obtain r0 z zs where s: "s1 = Opened r0"
    and z: "advance (active_filter r0) (remaining r0) = z # zs"
    and s2: "s2 = Opened (r0\<lparr>remaining := zs\<rparr>)"
    by (auto simp: read_next_def rosbag2_cpp_Reader_def sequential_read_next_def
        split: reader_state.splits list.splits sum.splits option.splits prod.splits)
  have "length zs < length (remaining r0)"
    using adv [of "active_filter r0" "remaining r0"] z by simp
  with s1 s s2
  show "((T, decompress, backends, s2), (T, decompress, backends, s))
          \<in> measure (\<lambda>(T, decompress, backends, s). pending s)"
    by auto
qed

declare read_all.simps [simp del]

text \<open>
  The tuple that the binding returns for a stored record whose payload is handed out as
  the log holds it, and the tuples among the values that a sequence of calls has
  returned.
\<close>

definition record_tuple :: "stored_record \<Rightarrow> py_tuple" where
  "record_tuple x = (rec_topic x, rec_payload x, sint (rec_timestamp x))"

fun tuples_of :: "(error + py_value) list \<Rightarrow> py_tuple list" where
  "tuples_of [] = []"
| "tuples_of (Inr (PyTuple t) # vs) = t # tuples_of vs"
| "tuples_of (v # vs) = tuples_of vs"

section \<open>The example scenarios of the specification\<close>

text \<open>
  The log of scenario 1 (two records, on the topics cmd and sensor), a storage layer that
  holds it under the URI \<open>bag\<close> and an empty log under the URI \<open>empty\<close>, a codec that
  decodes nothing, the options that open the log, and the plugin environment of
  scenario 5.
\<close>

definition example_log :: bag where
  "example_log =
     \<lparr>records =
        [\<lparr>rec_topic = ''cmd'', rec_payload = [1, 2], rec_timestamp = 100,
          rec_compressed = False\<rparr>,
         \<lparr>rec_topic = ''sensor'', rec_payload = [16], rec_timestamp = 150,
          rec_compressed = False\<rparr>],
      topics_and_types =
        [\<lparr>name = ''cmd'', type = ''std_msgs/msg/String'', serialization_format = ''cdr''\<rparr>,
         \<lparr>name = ''sensor'', type = ''std_msgs/msg/Int32'', serialization_format = ''cdr''\<rparr>]\<rparr>"

definition example_backends :: "storage_options \<Rightarrow> bag option" where
  "example_backends so =
     (if uri so = ''bag'' then Some example_log
      else if uri so = ''empty'' then Some \<lparr>records = [], topics_and_types = []\<rparr>
      else None)"

definition no_codec :: "byte list \<Rightarrow> byte list option" where
  "no_codec bytes = None"

definition example_options :: storage_options where
  "example_options = \<lparr>uri = ''bag'', storage_id = ''sqlite3''\<rparr>"

definition cdr :: converter_options where
  "cdr = \<lparr>input_serialization_format = ''cdr'', output_serialization_format = ''cdr''\<rparr>"

definition example_plugins :: "storage_interface \<Rightarrow> string list" where
  "example_plugins i =
     (case i of ReadWriteInterface \<Rightarrow> [''sqlite3''] | ReadOnlyInterface \<Rightarrow> [''sqlite3'', ''mcap''])"

section \<open>Properties of the binding\<close>

lemmas binding_defs =
  Reader_def open_bag_def has_next_def read_next_def get_all_topics_and_types_def
  set_filter_def reset_filter_def string_of_range_def

lemmas sequential_defs =
  rosbag2_cpp_Reader_def sequential_open_def sequential_has_next_def
  sequential_read_next_def sequential_get_all_topics_and_types_def
  sequential_set_filter_def sequential_reset_filter_def deliver_def to_message_def

lemmas example_defs =
  example_log_def example_backends_def no_codec_def example_options_def cdr_def
  example_plugins_def


lemma string_of_range_Inr:
  "string_of_range mem n = Inr bytes \<longleftrightarrow> n \<le> length mem \<and> bytes = take n mem"
  by (auto simp: string_of_range_def)

lemma set_us_insert: "set (us_insert x s) = insert x (set s)"
  by (auto simp: us_insert_def)

lemma distinct_us_insert: "distinct s \<Longrightarrow> distinct (us_insert x s)"
  by (simp add: us_insert_def)

lemma set_us_insert_range: "set (us_insert_range xs s) = set xs \<union> set s"
  by (induction xs arbitrary: s) (auto simp: set_us_insert)

lemma distinct_us_insert_range: "distinct s \<Longrightarrow> distinct (us_insert_range xs s)"
  by (induction xs arbitrary: s) (auto simp: distinct_us_insert)

lemma set_get_class_plugins: "set (get_class_plugins env i) = set (env i)"
  by (simp add: get_class_plugins_def set_us_insert_range)

lemma distinct_get_class_plugins: "distinct (get_class_plugins env i)"
  by (simp add: get_class_plugins_def distinct_us_insert_range)

lemma str_cast_Inr: "str_cast t = Inr t' \<longleftrightarrow> utf8_well_formed (map of_char t) \<and> t' = t"
  by (auto simp: str_cast_def)

lemma str_cast_Inl: "str_cast t = Inl e \<longleftrightarrow> \<not> utf8_well_formed (map of_char t) \<and> e = UnicodeDecodeError"
  by (auto simp: str_cast_def)

text \<open>
  C1. Whenever \<open>read_next\<close> returns, the reader behind it returned a record, and the
  tuple is that record's topic name, the bytes of its serialized data as they stand
  (the first \<open>buffer_length\<close> bytes of the buffer, nothing added, dropped or changed),
  and its time stamp; the state left is the one the reader left.
\<close>

theorem read_next_returns_record:
  assumes "read_next reader s = (Inr (t, payload, ts), s')"
  shows "\<exists>m a. impl_read_next reader s = (Inr (Some m), s') \<and>
           serialized_data m = Some a \<and>
           buffer_length a \<le> length (buffer a) \<and>
           utf8_well_formed (map of_char (topic_name m)) \<and>
           t = topic_name m \<and>
           payload = take (buffer_length a) (buffer a) \<and>
           ts = sint (time_stamp m)"
  using assms
  by (auto simp: read_next_def string_of_range_Inr str_cast_Inr
      split: sum.splits prod.splits option.splits)

theorem read_next_returns_record_witness:
  "read_next (rosbag2_cpp_Reader SequentialReader no_codec example_backends)
     (Opened \<lparr>all_topics = [], remaining = records example_log, active_filter = all_pass\<rparr>)
   = (Inr (''cmd'', [1, 2], 100),
      Opened \<lparr>all_topics = [], remaining = tl (records example_log),
              active_filter = all_pass\<rparr>) \<and>
   (\<exists>m a. impl_read_next (rosbag2_cpp_Reader SequentialReader no_codec example_backends)
             (Opened \<lparr>all_topics = [], remaining = records example_log,
                     active_filter = all_pass\<rparr>)
           = (Inr (Some m), Opened \<lparr>all_topics = [], remaining = tl (records example_log),
                                     active_filter = all_pass\<rparr>) \<and>
          serialized_data m = Some a \<and>
          buffer_length a \<le> length (buffer a) \<and>
          ''cmd'' = topic_name m \<and>
          [1, 2] = take (buffer_length a) (buffer a) \<and>
          (100 :: int) = sint (time_stamp m))"
proof -
  have h: "read_next (rosbag2_cpp_Reader SequentialReader no_codec example_backends)
      (Opened \<lparr>all_topics = [], remaining = records example_log, active_filter = all_pass\<rparr>)
    = (Inr (''cmd'', [1, 2], 100),
       Opened \<lparr>all_topics = [], remaining = tl (records example_log),
               active_filter = all_pass\<rparr>)"
    by (simp add: binding_defs str_cast_def sequential_defs example_defs decoded_def allowed_def
        all_pass_def)
  from read_next_returns_record [OF h] h show ?thesis
    by blast
qed

text \<open>
  C10, as stated, fails for a record whose topic name is not well-formed UTF-8: for a
  record with \<open>buffer_length\<close> zero and the topic name of the one byte FF, \<open>read_next\<close>
  raises \<open>UnicodeDecodeError\<close> and returns neither payload nor topic name nor time stamp.
\<close>

theorem read_next_invalid_topic_counterexample:
  "impl_read_next
     \<lparr>impl_new = (), impl_open = (\<lambda>so co s. (Inr (), s)),
      impl_has_next = (\<lambda>s. (Inr True, s)),
      impl_read_next = (\<lambda>s. (Inr (Some \<lparr>serialized_data =
                                            Some \<lparr>buffer = [], buffer_length = 0\<rparr>,
                                          time_stamp = 100, topic_name = [CHR 0xFF]\<rparr>), s)),
      impl_get_all_topics_and_types = (\<lambda>s. (Inr [], s)),
      impl_set_filter = (\<lambda>f s. (Inr (), s)), impl_reset_filter = (\<lambda>s. (Inr (), s))\<rparr> ()
   = (Inr (Some \<lparr>serialized_data = Some \<lparr>buffer = [], buffer_length = 0\<rparr>,
                 time_stamp = 100, topic_name = [CHR 0xFF]\<rparr>), ()) \<and>
   read_next
     \<lparr>impl_new = (), impl_open = (\<lambda>so co s. (Inr (), s)),
      impl_has_next = (\<lambda>s. (Inr True, s)),
      impl_read_next = (\<lambda>s. (Inr (Some \<lparr>serialized_data =
                                            Some \<lparr>buffer = [], buffer_length = 0\<rparr>,
                                          time_stamp = 100, topic_name = [CHR 0xFF]\<rparr>), s)),
      impl_get_all_topics_and_types = (\<lambda>s. (Inr [], s)),
      impl_set_filter = (\<lambda>f s. (Inr (), s)), impl_reset_filter = (\<lambda>s. (Inr (), s))\<rparr> ()
   = (Inl UnicodeDecodeError, ())"
  by (simp add: read_next_def string_of_range_def str_cast_def)

text \<open>
  C10, amended. In every tuple that \<open>read_next\<close> returns, the payload is exactly the
  first \<open>buffer_length\<close> bytes of the record's buffer, each equal to the byte of the
  buffer at the same position, zero or not, and it is empty when \<open>buffer_length\<close> is
  zero; topic name and time stamp are the record's. A record whose data lie within the
  memory behind the buffer pointer is returned so when its topic name is well-formed
  UTF-8, in particular a record with \<open>buffer_length\<close> zero, whose payload is the empty
  byte sequence; when the topic name is not well-formed UTF-8, \<open>read_next\<close> raises
  \<open>UnicodeDecodeError\<close>.
\<close>

theorem read_next_payload_is_buffer_prefix:
  "(read_next reader s = (Inr (t, payload, ts), s') \<longrightarrow>
      (\<exists>m a. impl_read_next reader s = (Inr (Some m), s') \<and>
             serialized_data m = Some a \<and>
             payload = take (buffer_length a) (buffer a) \<and>
             length payload = buffer_length a \<and>
             (\<forall>i<buffer_length a. payload ! i = buffer a ! i) \<and>
             (buffer_length a = 0 \<longrightarrow> payload = []) \<and>
             t = topic_name m \<and> ts = sint (time_stamp m))) \<and>
   (impl_read_next reader s = (Inr (Some m), s') \<and> serialized_data m = Some a \<and>
    buffer_length a \<le> length (buffer a) \<longrightarrow>
      (utf8_well_formed (map of_char (topic_name m)) \<longrightarrow>
         read_next reader s
           = (Inr (topic_name m, take (buffer_length a) (buffer a), sint (time_stamp m)), s')) \<and>
      (\<not> utf8_well_formed (map of_char (topic_name m)) \<longrightarrow>
         read_next reader s = (Inl UnicodeDecodeError, s'))) \<and>
   (impl_read_next reader s = (Inr (Some m), s') \<and> serialized_data m = Some a \<and>
    buffer_length a = 0 \<and> utf8_well_formed (map of_char (topic_name m)) \<longrightarrow>
      read_next reader s = (Inr (topic_name m, [], sint (time_stamp m)), s'))"
proof (intro conjI impI)
  assume "read_next reader s = (Inr (t, payload, ts), s')"
  then show "\<exists>m a. impl_read_next reader s = (Inr (Some m), s') \<and>
             serialized_data m = Some a \<and>
             payload = take (buffer_length a) (buffer a) \<and>
             length payload = buffer_length a \<and>
             (\<forall>i<buffer_length a. payload ! i = buffer a ! i) \<and>
             (buffer_length a = 0 \<longrightarrow> payload = []) \<and>
             t = topic_name m \<and> ts = sint (time_stamp m)"
    by (auto simp: read_next_def string_of_range_Inr str_cast_Inr
        split: sum.splits prod.splits option.splits)
qed (simp_all add: read_next_def string_of_range_def str_cast_def)

theorem read_next_payload_is_buffer_prefix_witness:
  "read_next
     \<lparr>impl_new = (), impl_open = (\<lambda>so co s. (Inr (), s)),
      impl_has_next = (\<lambda>s. (Inr True, s)),
      impl_read_next = (\<lambda>s. (Inr (Some \<lparr>serialized_data =
                                            Some \<lparr>buffer = [1, 0, 2, 0, 7], buffer_length = 4\<rparr>,
                                          time_stamp = 100, topic_name = ''cmd''\<rparr>), s)),
      impl_get_all_topics_and_types = (\<lambda>s. (Inr [], s)),
      impl_set_filter = (\<lambda>f s. (Inr (), s)), impl_reset_filter = (\<lambda>s. (Inr (), s))\<rparr> ()
   = (Inr (''cmd'', [1, 0, 2, 0], 100), ())"
proof -
  let ?a = "\<lparr>buffer = [1, 0, 2, 0, 7 :: byte], buffer_length = 4\<rparr>"
  let ?m = "\<lparr>serialized_data = Some ?a, time_stamp = 100, topic_name = ''cmd''\<rparr>"
  let ?reader = "\<lparr>impl_new = (), impl_open = (\<lambda>so co s. (Inr (), s)),
      impl_has_next = (\<lambda>s. (Inr True, s)),
      impl_read_next = (\<lambda>s. (Inr (Some ?m), s)),
      impl_get_all_topics_and_types = (\<lambda>s. (Inr [], s)),
      impl_set_filter = (\<lambda>f s. (Inr (), s)), impl_reset_filter = (\<lambda>s. (Inr (), s))\<rparr>"
  have "impl_read_next ?reader () = (Inr (Some ?m), ())"
    by simp
  moreover have "serialized_data ?m = Some ?a"
    by simp
  moreover have "buffer_length ?a \<le> length (buffer ?a)"
    by simp
  moreover have "utf8_well_formed (map of_char (topic_name ?m))"
    by simp
  ultimately show ?thesis
    using read_next_payload_is_buffer_prefix [where reader = ?reader and s = "()" and m = ?m
        and s' = "()" and a = ?a and t = "''cmd''" and payload = "[1, 0, 2, 0]" and ts = 100,
        THEN conjunct2, THEN conjunct1]
    by simp
qed

text \<open>
  C2. In every plugin environment, \<open>get_registered_readers\<close> returns each backend
  identifier advertised under the read-write or the read-only capability, each exactly
  once, and nothing else.
\<close>

theorem get_registered_readers_is_union:
  "distinct (get_registered_readers env) \<and>
   set (get_registered_readers env) = set (env ReadWriteInterface) \<union> set (env ReadOnlyInterface)"
  by (auto simp: get_registered_readers_def Let_def set_us_insert_range set_get_class_plugins
      distinct_us_insert_range distinct_get_class_plugins)

theorem get_registered_readers_is_union_witness:
  "get_registered_readers example_plugins = [''sqlite3'', ''mcap''] \<and>
   distinct (get_registered_readers example_plugins) \<and>
   set (get_registered_readers example_plugins) = {''sqlite3'', ''mcap''}"
proof -
  have "get_registered_readers example_plugins = [''sqlite3'', ''mcap'']"
    by (simp add: get_registered_readers_def get_class_plugins_def us_insert_def
        example_plugins_def)
  moreover have "set (example_plugins ReadWriteInterface) \<union> set (example_plugins ReadOnlyInterface)
      = {''sqlite3'', ''mcap''}"
    by (auto simp: example_plugins_def)
  ultimately show ?thesis
    using get_registered_readers_is_union [of example_plugins] by simp
qed



subsection \<open>The binding over the two sequential readers\<close>

lemma has_next_Opened:
  "has_next (rosbag2_cpp_Reader T d b) (Opened r) =
     (Inr (advance (active_filter r) (remaining r) \<noteq> []), Opened r)"
  by (simp add: has_next_def rosbag2_cpp_Reader_def sequential_has_next_def)

lemma read_next_Opened:
  "read_next (rosbag2_cpp_Reader T d b) (Opened r) =
     (case advance (active_filter r) (remaining r) of
        [] \<Rightarrow> (Inl EndOfStream, Opened (r\<lparr>remaining := []\<rparr>))
      | x # xs \<Rightarrow>
          (case decoded T d x of
             Inl e \<Rightarrow> (Inl e, Opened (r\<lparr>remaining := xs\<rparr>))
           | Inr bytes \<Rightarrow>
               (if utf8_well_formed (map of_char (rec_topic x))
                then (Inr (rec_topic x, bytes, sint (rec_timestamp x)),
                      Opened (r\<lparr>remaining := xs\<rparr>))
                else (Inl UnicodeDecodeError, Opened (r\<lparr>remaining := xs\<rparr>)))))"
  by (simp add: binding_defs str_cast_def sequential_defs split: list.splits sum.splits)

lemma get_all_topics_and_types_Opened:
  "get_all_topics_and_types (rosbag2_cpp_Reader T d b) (Opened r) = (Inr (all_topics r), Opened r)"
  by (simp add: binding_defs sequential_defs)

lemma set_filter_Opened:
  "set_filter (rosbag2_cpp_Reader T d b) f (Opened r) = (Inr (), Opened (r\<lparr>active_filter := f\<rparr>))"
  by (simp add: binding_defs sequential_defs)

lemma reset_filter_Opened:
  "reset_filter (rosbag2_cpp_Reader T d b) (Opened r) =
     (Inr (), Opened (r\<lparr>active_filter := all_pass\<rparr>))"
  by (simp add: binding_defs sequential_defs all_pass_def)

lemma open_bag_Opened:
  "open_bag (rosbag2_cpp_Reader T d b) so co (Opened r) = (Inl InvalidState, Opened r)"
  by (simp add: binding_defs sequential_defs)

lemma open_bag_Unopened:
  "open_bag (rosbag2_cpp_Reader T d b) so co Unopened =
     (case b so of
        None \<Rightarrow> (Inl StorageOpen, Unopened)
      | Some L \<Rightarrow>
          (Inr (),
           Opened \<lparr>all_topics = topics_and_types L, remaining = records L,
                   active_filter = all_pass\<rparr>))"
  by (simp add: binding_defs sequential_defs)

lemma Reader_Unopened: "Reader (rosbag2_cpp_Reader T d b) = Unopened"
  by (simp add: binding_defs sequential_defs)

lemma unopened_calls:
  "has_next (rosbag2_cpp_Reader T d b) Unopened = (Inl InvalidState, Unopened)"
  "read_next (rosbag2_cpp_Reader T d b) Unopened = (Inl InvalidState, Unopened)"
  "get_all_topics_and_types (rosbag2_cpp_Reader T d b) Unopened = (Inl InvalidState, Unopened)"
  "set_filter (rosbag2_cpp_Reader T d b) f Unopened = (Inl InvalidState, Unopened)"
  "reset_filter (rosbag2_cpp_Reader T d b) Unopened = (Inl InvalidState, Unopened)"
  by (simp_all add: binding_defs sequential_defs)

lemma method_bound: "method_name c \<in> set (class_def T)"
  by (cases c; cases T) simp_all

lemma py_call_eq: "py_call T d b c s = call_method (rosbag2_cpp_Reader T d b) c s"
  by (simp add: py_call_def method_bound)

lemmas call_defs = py_call_eq open_bag_Opened open_bag_Unopened has_next_Opened read_next_Opened
  get_all_topics_and_types_Opened set_filter_Opened reset_filter_Opened Reader_Unopened
  unopened_calls

lemma length_advance: "length (advance f xs) \<le> length xs"
  by (induction xs) auto

lemma set_advance: "set (advance f xs) \<subseteq> set xs"
  by (induction xs) auto

lemma advance_Nil: "advance f xs = [] \<Longrightarrow> filter (\<lambda>x. allowed f (rec_topic x)) xs = []"
  by (induction xs) (auto split: if_splits)

lemma advance_Cons:
  "advance f xs = y # ys \<Longrightarrow>
     filter (\<lambda>x. allowed f (rec_topic x)) xs = y # filter (\<lambda>x. allowed f (rec_topic x)) ys"
  by (induction xs) (auto split: if_splits)

lemma advance_Cons_mem: "advance f xs = y # ys \<Longrightarrow> y \<in> set xs \<and> set ys \<subseteq> set xs"
  using set_advance [of f xs] by auto

lemma advance_Cons_drop:
  "advance f xs = y # ys \<Longrightarrow>
     \<exists>k. k < length xs \<and> take (Suc k) xs = take k xs @ [y] \<and> ys = drop (Suc k) xs"
proof (induction xs)
  case Nil
  then show ?case by simp
next
  case (Cons x xs)
  show ?case
  proof (cases "allowed f (rec_topic x)")
    case True
    with Cons.prems have "y = x" "ys = xs"
      by simp_all
    then have "0 < length (x # xs) \<and> take (Suc 0) (x # xs) = take 0 (x # xs) @ [y] \<and>
        ys = drop (Suc 0) (x # xs)"
      by simp
    then show ?thesis
      by blast
  next
    case False
    with Cons.prems have "advance f xs = y # ys"
      by simp
    from Cons.IH [OF this] obtain k where "k < length xs"
      "take (Suc k) xs = take k xs @ [y]" "ys = drop (Suc k) xs"
      by blast
    then have "Suc k < length (x # xs) \<and>
        take (Suc (Suc k)) (x # xs) = take (Suc k) (x # xs) @ [y] \<and>
        ys = drop (Suc (Suc k)) (x # xs)"
      by simp
    then show ?thesis
      by blast
  qed
qed

lemma read_all_Opened:
  "read_all T d b (Opened r) =
     (case advance (active_filter r) (remaining r) of
        [] \<Rightarrow> Inr []
      | x # xs \<Rightarrow>
          (case decoded T d x of
             Inl e \<Rightarrow> Inl e
           | Inr bytes \<Rightarrow>
               (if utf8_well_formed (map of_char (rec_topic x))
                then (case read_all T d b (Opened (r\<lparr>remaining := xs\<rparr>)) of
                        Inl e \<Rightarrow> Inl e
                      | Inr ts \<Rightarrow> Inr ((rec_topic x, bytes, sint (rec_timestamp x)) # ts))
                else Inl UnicodeDecodeError)))"
  by (subst read_all.simps)
     (simp add: has_next_Opened read_next_Opened split: list.splits sum.splits)

lemma read_all_Unopened: "read_all T d b Unopened = Inl InvalidState"
  by (subst read_all.simps) (simp add: unopened_calls)

lemma read_all_topics:
  "read_all T d b (Opened r) = Inr out \<Longrightarrow>
     map fst out = map rec_topic (filter (\<lambda>x. allowed (active_filter r) (rec_topic x)) (remaining r))"
proof (induction "length (remaining r)" arbitrary: r out rule: less_induct)
  case less
  show ?case
  proof (cases "advance (active_filter r) (remaining r)")
    case Nil
    with less.prems show ?thesis
      by (simp add: read_all_Opened advance_Nil)
  next
    case (Cons x xs)
    from less.prems Cons obtain bytes ts where
      ts: "read_all T d b (Opened (r\<lparr>remaining := xs\<rparr>)) = Inr ts"
      and out: "out = (rec_topic x, bytes, sint (rec_timestamp x)) # ts"
      by (subst (asm) read_all_Opened) (auto split: sum.splits if_splits)
    have "length xs < length (remaining r)"
      using length_advance [of "active_filter r" "remaining r"] Cons by simp
    from less.hyps [of "r\<lparr>remaining := xs\<rparr>" ts] this ts
    have "map fst ts = map rec_topic (filter (\<lambda>x. allowed (active_filter r) (rec_topic x)) xs)"
      by simp
    with out advance_Cons [OF Cons] show ?thesis
      by simp
  qed
qed

lemma read_all_undecoded:
  assumes "\<And>x. x \<in> set (remaining r) \<Longrightarrow> decoded T d x = Inr (rec_payload x)"
  shows "read_all T d b (Opened r) =
     (if list_all (\<lambda>x. utf8_well_formed (map of_char (rec_topic x)))
           (filter (\<lambda>x. allowed (active_filter r) (rec_topic x)) (remaining r))
      then Inr (map record_tuple
                 (filter (\<lambda>x. allowed (active_filter r) (rec_topic x)) (remaining r)))
      else Inl UnicodeDecodeError)"
  using assms
proof (induction "length (remaining r)" arbitrary: r rule: less_induct)
  case less
  show ?case
  proof (cases "advance (active_filter r) (remaining r)")
    case Nil
    then show ?thesis
      by (simp add: read_all_Opened advance_Nil)
  next
    case (Cons x xs)
    have l: "length xs < length (remaining r)"
      using length_advance [of "active_filter r" "remaining r"] Cons by simp
    from advance_Cons_mem [OF Cons] less.prems
    have x: "decoded T d x = Inr (rec_payload x)"
      and xs: "\<And>y. y \<in> set xs \<Longrightarrow> decoded T d y = Inr (rec_payload y)"
      by auto
    from less.hyps [of "r\<lparr>remaining := xs\<rparr>"] l xs
    have "read_all T d b (Opened (r\<lparr>remaining := xs\<rparr>)) =
        (if list_all (\<lambda>x. utf8_well_formed (map of_char (rec_topic x)))
              (filter (\<lambda>x. allowed (active_filter r) (rec_topic x)) xs)
         then Inr (map record_tuple (filter (\<lambda>x. allowed (active_filter r) (rec_topic x)) xs))
         else Inl UnicodeDecodeError)"
      by simp
    with Cons advance_Cons [OF Cons] x show ?thesis
      by (subst read_all_Opened) (simp add: record_tuple_def)
  qed
qed

lemma decoded_plain: "decoded SequentialReader d x = Inr (rec_payload x)"
  by (simp add: decoded_def)

lemma decoded_uncompressed: "\<not> rec_compressed x \<Longrightarrow> decoded T d x = Inr (rec_payload x)"
  by (simp add: decoded_def)

lemma read_all_plain:
  "read_all SequentialReader d b (Opened r) =
     (if list_all (\<lambda>x. utf8_well_formed (map of_char (rec_topic x)))
           (filter (\<lambda>x. allowed (active_filter r) (rec_topic x)) (remaining r))
      then Inr (map record_tuple
                 (filter (\<lambda>x. allowed (active_filter r) (rec_topic x)) (remaining r)))
      else Inl UnicodeDecodeError)"
  by (rule read_all_undecoded) (rule decoded_plain)

text \<open>
  C3. For each of the two readers: when \<open>has_next\<close> reports false, \<open>read_next\<close> in the
  same state fails with the end-of-stream error and returns no record, and so it does
  when called again; the reader stays exhausted. A reader opened on a log without records
  is in such a state at once.
\<close>

theorem read_next_at_end_is_error:
  "(has_next (rosbag2_cpp_Reader T d b) s = (Inr False, s') \<longrightarrow>
      s' = s \<and>
      fst (read_next (rosbag2_cpp_Reader T d b) s) = Inl EndOfStream \<and>
      fst (call_method (rosbag2_cpp_Reader T d b) Call_read_next s) = Inl EndOfStream \<and>
      has_next (rosbag2_cpp_Reader T d b) (snd (read_next (rosbag2_cpp_Reader T d b) s))
        = (Inr False, snd (read_next (rosbag2_cpp_Reader T d b) s)) \<and>
      fst (read_next (rosbag2_cpp_Reader T d b) (snd (read_next (rosbag2_cpp_Reader T d b) s)))
        = Inl EndOfStream) \<and>
   (b so = Some L \<and> records L = [] \<longrightarrow>
      (\<exists>s0. open_bag (rosbag2_cpp_Reader T d b) so co (Reader (rosbag2_cpp_Reader T d b))
              = (Inr (), s0) \<and>
            has_next (rosbag2_cpp_Reader T d b) s0 = (Inr False, s0) \<and>
            read_next (rosbag2_cpp_Reader T d b) s0 = (Inl EndOfStream, s0)))"
proof (intro conjI impI)
  assume h: "has_next (rosbag2_cpp_Reader T d b) s = (Inr False, s')"
  then obtain r where s: "s = Opened r"
    by (cases s) (simp_all add: unopened_calls)
  with h have a: "advance (active_filter r) (remaining r) = []" and "s' = s"
    by (simp_all add: has_next_Opened)
  then show "s' = s"
    by simp
  from s a have n: "read_next (rosbag2_cpp_Reader T d b) s
      = (Inl EndOfStream, Opened (r\<lparr>remaining := []\<rparr>))"
    by (simp add: read_next_Opened)
  then show "fst (read_next (rosbag2_cpp_Reader T d b) s) = Inl EndOfStream"
    and "fst (call_method (rosbag2_cpp_Reader T d b) Call_read_next s) = Inl EndOfStream"
    by simp_all
  from n show "has_next (rosbag2_cpp_Reader T d b)
      (snd (read_next (rosbag2_cpp_Reader T d b) s))
    = (Inr False, snd (read_next (rosbag2_cpp_Reader T d b) s))"
    and "fst (read_next (rosbag2_cpp_Reader T d b)
      (snd (read_next (rosbag2_cpp_Reader T d b) s))) = Inl EndOfStream"
    by (simp_all add: has_next_Opened read_next_Opened)
next
  assume "b so = Some L \<and> records L = []"
  then show "\<exists>s0. open_bag (rosbag2_cpp_Reader T d b) so co (Reader (rosbag2_cpp_Reader T d b))
              = (Inr (), s0) \<and>
            has_next (rosbag2_cpp_Reader T d b) s0 = (Inr False, s0) \<and>
            read_next (rosbag2_cpp_Reader T d b) s0 = (Inl EndOfStream, s0)"
    by (simp add: Reader_Unopened open_bag_Unopened has_next_Opened read_next_Opened)
qed

theorem read_next_at_end_is_error_witness:
  "has_next (rosbag2_cpp_Reader SequentialReader no_codec example_backends)
     (Opened \<lparr>all_topics = [], remaining = records example_log,
              active_filter = \<lparr>topics = [''none'']\<rparr>\<rparr>)
   = (Inr False, Opened \<lparr>all_topics = [], remaining = records example_log,
                         active_filter = \<lparr>topics = [''none'']\<rparr>\<rparr>) \<and>
   read_next (rosbag2_cpp_Reader SequentialReader no_codec example_backends)
     (Opened \<lparr>all_topics = [], remaining = records example_log,
              active_filter = \<lparr>topics = [''none'']\<rparr>\<rparr>)
   = (Inl EndOfStream, Opened \<lparr>all_topics = [], remaining = [],
                               active_filter = \<lparr>topics = [''none'']\<rparr>\<rparr>) \<and>
   example_backends \<lparr>uri = ''empty'', storage_id = ''sqlite3''\<rparr>
     = Some \<lparr>records = [], topics_and_types = []\<rparr> \<and>
   (\<exists>s0. open_bag (rosbag2_cpp_Reader SequentialReader no_codec example_backends)
           \<lparr>uri = ''empty'', storage_id = ''sqlite3''\<rparr> cdr
           (Reader (rosbag2_cpp_Reader SequentialReader no_codec example_backends))
           = (Inr (), s0) \<and>
         has_next (rosbag2_cpp_Reader SequentialReader no_codec example_backends) s0
           = (Inr False, s0) \<and>
         read_next (rosbag2_cpp_Reader SequentialReader no_codec example_backends) s0
           = (Inl EndOfStream, s0))"
proof -
  let ?rd = "rosbag2_cpp_Reader SequentialReader no_codec example_backends"
  let ?r = "\<lparr>all_topics = [], remaining = records example_log,
             active_filter = \<lparr>topics = [''none'']\<rparr>\<rparr>"
  let ?so = "\<lparr>uri = ''empty'', storage_id = ''sqlite3''\<rparr>"
  let ?L = "\<lparr>records = [], topics_and_types = []\<rparr>"
  have h: "has_next ?rd (Opened ?r) = (Inr False, Opened ?r)"
    by (simp add: has_next_Opened example_log_def allowed_def)
  have n: "read_next ?rd (Opened ?r) = (Inl EndOfStream, Opened (?r\<lparr>remaining := []\<rparr>))"
    by (simp add: read_next_Opened example_log_def allowed_def)
  have e: "example_backends ?so = Some ?L \<and> records ?L = []"
    by (simp add: example_backends_def)
  from read_next_at_end_is_error
    [where T = SequentialReader and d = no_codec and b = example_backends and s = "Opened ?r"
       and s' = "Opened ?r" and so = ?so and L = ?L and co = cdr, THEN conjunct2] e
  have "\<exists>s0. open_bag ?rd ?so cdr (Reader ?rd) = (Inr (), s0) \<and>
      has_next ?rd s0 = (Inr False, s0) \<and> read_next ?rd s0 = (Inl EndOfStream, s0)"
    by blast
  with h n e show ?thesis
    by simp
qed

text \<open>
  C4. On an opened reader, \<open>has_next\<close> leaves the state (cursor and filter) as it is,
  and any number of calls one after the other, with nothing between them, all return the
  same boolean.
\<close>

theorem has_next_is_pure:
  "\<exists>answer.
     has_next (rosbag2_cpp_Reader T d b) (Opened r) = (Inr answer, Opened r) \<and>
     run T d b (replicate n Call_has_next) (Opened r)
       = (replicate n (Inr (PyBool answer)), Opened r)"
proof -
  let ?answer = "advance (active_filter r) (remaining r) \<noteq> []"
  have "run T d b (replicate n Call_has_next) (Opened r)
      = (replicate n (Inr (PyBool ?answer)), Opened r)"
    by (induction n) (simp_all add: py_call_eq has_next_Opened)
  then show ?thesis
    by (simp add: has_next_Opened)
qed

theorem has_next_is_pure_witness:
  "has_next (rosbag2_cpp_Reader SequentialReader no_codec example_backends)
     (Opened \<lparr>all_topics = [], remaining = records example_log, active_filter = all_pass\<rparr>)
   = (Inr True, Opened \<lparr>all_topics = [], remaining = records example_log,
                        active_filter = all_pass\<rparr>) \<and>
   run SequentialReader no_codec example_backends [Call_has_next, Call_has_next, Call_has_next]
     (Opened \<lparr>all_topics = [], remaining = records example_log, active_filter = all_pass\<rparr>)
   = ([Inr (PyBool True), Inr (PyBool True), Inr (PyBool True)],
      Opened \<lparr>all_topics = [], remaining = records example_log, active_filter = all_pass\<rparr>)"
proof -
  let ?r = "\<lparr>all_topics = [], remaining = records example_log, active_filter = all_pass\<rparr>"
  have "has_next (rosbag2_cpp_Reader SequentialReader no_codec example_backends) (Opened ?r)
      = (Inr True, Opened ?r)"
    by (simp add: has_next_Opened example_log_def allowed_def all_pass_def)
  moreover have "replicate 3 Call_has_next = [Call_has_next, Call_has_next, Call_has_next]"
    by (simp add: numeral_3_eq_3)
  moreover have "replicate 3 (Inr (PyBool True) :: error + py_value)
      = [Inr (PyBool True), Inr (PyBool True), Inr (PyBool True)]"
    by (simp add: numeral_3_eq_3)
  ultimately show ?thesis
    using has_next_is_pure [of SequentialReader no_codec example_backends ?r 3]
    by auto
qed

text \<open>
  C5. A reader opened on a log \<open>L\<close> and given the filter \<open>F\<close> is iterated to the end.
  The topic names of the tuples returned are, in order, those of the records of \<open>L\<close> that
  \<open>F\<close> allows: all of them lie in the allowed set when it is not empty, and they are the
  topics of all records of \<open>L\<close> when \<open>F\<close> is all-pass. The plain reader returns exactly the
  allowed records, so that no other record reaches the caller; the iteration ends in an
  exception only when the topic name of an allowed record is not well-formed UTF-8.
\<close>

theorem filtered_iteration_topics:
  assumes "b so = Some L"
  shows "\<exists>s0 s1.
     open_bag (rosbag2_cpp_Reader T d b) so co (Reader (rosbag2_cpp_Reader T d b))
       = (Inr (), s0) \<and>
     set_filter (rosbag2_cpp_Reader T d b) F s0 = (Inr (), s1) \<and>
     (\<forall>out. read_all T d b s1 = Inr out \<longrightarrow>
        map fst out = map rec_topic (filter (\<lambda>x. allowed F (rec_topic x)) (records L)) \<and>
        (topics F \<noteq> [] \<longrightarrow> set (map fst out) \<subseteq> set (topics F)) \<and>
        (topics F = [] \<longrightarrow> set (map fst out) = set (map rec_topic (records L)))) \<and>
     read_all SequentialReader d b s1
       = (if list_all (\<lambda>x. utf8_well_formed (map of_char (rec_topic x)))
               (filter (\<lambda>x. allowed F (rec_topic x)) (records L))
          then Inr (map record_tuple (filter (\<lambda>x. allowed F (rec_topic x)) (records L)))
          else Inl UnicodeDecodeError)"
proof -
  let ?fresh = "Opened \<lparr>all_topics = topics_and_types L, remaining = records L,
                         active_filter = all_pass\<rparr>"
  let ?r1 = "\<lparr>all_topics = topics_and_types L, remaining = records L, active_filter = F\<rparr>"
  have o: "open_bag (rosbag2_cpp_Reader T d b) so co (Reader (rosbag2_cpp_Reader T d b))
      = (Inr (), ?fresh)"
    using assms by (simp add: Reader_Unopened open_bag_Unopened)
  have f: "set_filter (rosbag2_cpp_Reader T d b) F ?fresh = (Inr (), Opened ?r1)"
    by (simp add: set_filter_Opened)
  have t: "map fst out = map rec_topic (filter (\<lambda>x. allowed F (rec_topic x)) (records L)) \<and>
        (topics F \<noteq> [] \<longrightarrow> set (map fst out) \<subseteq> set (topics F)) \<and>
        (topics F = [] \<longrightarrow> set (map fst out) = set (map rec_topic (records L)))"
    if "read_all T d b (Opened ?r1) = Inr out" for out
  proof -
    from read_all_topics [OF that]
    have m: "map fst out = map rec_topic (filter (\<lambda>x. allowed F (rec_topic x)) (records L))"
      by simp
    have "set (map rec_topic (filter (\<lambda>x. allowed F (rec_topic x)) (records L))) \<subseteq> set (topics F)"
      if "topics F \<noteq> []"
      using that by (auto simp: allowed_def)
    moreover have "filter (\<lambda>x. allowed F (rec_topic x)) (records L) = records L"
      if "topics F = []"
      using that by (simp add: allowed_def)
    ultimately show ?thesis
      using m by simp
  qed
  have p: "read_all SequentialReader d b (Opened ?r1)
      = (if list_all (\<lambda>x. utf8_well_formed (map of_char (rec_topic x)))
              (filter (\<lambda>x. allowed F (rec_topic x)) (records L))
         then Inr (map record_tuple (filter (\<lambda>x. allowed F (rec_topic x)) (records L)))
         else Inl UnicodeDecodeError)"
    using read_all_plain [of d b ?r1] by simp
  from o f t p show ?thesis
    by blast
qed

theorem filtered_iteration_topics_witness:
  "example_backends example_options = Some example_log \<and>
   (\<exists>s0 s1.
      open_bag (rosbag2_cpp_Reader SequentialReader no_codec example_backends) example_options cdr
        (Reader (rosbag2_cpp_Reader SequentialReader no_codec example_backends)) = (Inr (), s0) \<and>
      set_filter (rosbag2_cpp_Reader SequentialReader no_codec example_backends)
        \<lparr>topics = [''sensor'']\<rparr> s0 = (Inr (), s1) \<and>
      read_all SequentialReader no_codec example_backends s1 = Inr [(''sensor'', [16], 150)])"
proof -
  have L: "example_backends example_options = Some example_log"
    by (simp add: example_backends_def example_options_def)
  have "(if list_all (\<lambda>x. utf8_well_formed (map of_char (rec_topic x)))
            (filter (\<lambda>x. allowed \<lparr>topics = [''sensor'']\<rparr> (rec_topic x)) (records example_log))
         then Inr (map record_tuple
            (filter (\<lambda>x. allowed \<lparr>topics = [''sensor'']\<rparr> (rec_topic x)) (records example_log)))
         else Inl UnicodeDecodeError)
    = (Inr [(''sensor'', [16], 150)] :: error + py_tuple list)"
    by (simp add: example_log_def allowed_def record_tuple_def)
  with filtered_iteration_topics
    [where b = example_backends and so = example_options and L = example_log
       and T = SequentialReader and d = no_codec and co = cdr
       and F = "\<lparr>topics = [''sensor'']\<rparr>"] L
  show ?thesis
    by auto
qed

subsection \<open>Sequences of calls\<close>

lemma tuples_of_Cons: "tuples_of (v # vs) = tuples_of [v] @ tuples_of vs"
  by (cases "(v # vs)" rule: tuples_of.cases) simp_all

lemma py_call_Opened:
  assumes "py_call T d b c (Opened r) = (v, s)"
  shows "\<exists>r' k. s = Opened r' \<and> all_topics r' = all_topics r \<and>
           k \<le> length (remaining r) \<and> remaining r' = drop k (remaining r) \<and>
           (c \<noteq> Call_read_next \<longrightarrow> k = 0) \<and>
           subseq (map fst (tuples_of [v])) (map rec_topic (take k (remaining r)))"
proof (cases c)
  case Call_read_next
  show ?thesis
  proof (cases "advance (active_filter r) (remaining r)")
    case Nil
    with assms Call_read_next
    have "s = Opened (r\<lparr>remaining := []\<rparr>)" "tuples_of [v] = []"
      by (auto simp: py_call_eq read_next_Opened)
    then have "s = Opened (r\<lparr>remaining := []\<rparr>) \<and>
        all_topics (r\<lparr>remaining := []\<rparr>) = all_topics r \<and>
        length (remaining r) \<le> length (remaining r) \<and>
        remaining (r\<lparr>remaining := []\<rparr>) = drop (length (remaining r)) (remaining r) \<and>
        (c \<noteq> Call_read_next \<longrightarrow> length (remaining r) = 0) \<and>
        subseq (map fst (tuples_of [v]))
          (map rec_topic (take (length (remaining r)) (remaining r)))"
      using Call_read_next by simp
    then show ?thesis
      by blast
  next
    case (Cons x xs)
    from advance_Cons_drop [OF Cons] obtain k where k: "k < length (remaining r)"
      "take (Suc k) (remaining r) = take k (remaining r) @ [x]" "xs = drop (Suc k) (remaining r)"
      by blast
    from assms Call_read_next Cons have s: "s = Opened (r\<lparr>remaining := xs\<rparr>)"
      by (auto simp: py_call_eq read_next_Opened split: sum.splits if_splits)
    from assms Call_read_next Cons have "tuples_of [v] = [] \<or> map fst (tuples_of [v]) = [rec_topic x]"
      by (auto simp: py_call_eq read_next_Opened split: sum.splits if_splits)
    then have "subseq (map fst (tuples_of [v])) (map rec_topic (take k (remaining r)) @ [rec_topic x])"
      by auto
    with k s have "s = Opened (r\<lparr>remaining := xs\<rparr>) \<and>
        all_topics (r\<lparr>remaining := xs\<rparr>) = all_topics r \<and>
        Suc k \<le> length (remaining r) \<and>
        remaining (r\<lparr>remaining := xs\<rparr>) = drop (Suc k) (remaining r) \<and>
        (c \<noteq> Call_read_next \<longrightarrow> Suc k = 0) \<and>
        subseq (map fst (tuples_of [v])) (map rec_topic (take (Suc k) (remaining r)))"
      using Call_read_next by simp
    then show ?thesis
      by blast
  qed
qed (use assms in \<open>auto simp: py_call_eq open_bag_Opened has_next_Opened
      get_all_topics_and_types_Opened set_filter_Opened reset_filter_Opened\<close>)

lemma run_Opened:
  "run T d b cs (Opened r) = (vs, s) \<Longrightarrow>
     \<exists>r' k. s = Opened r' \<and> all_topics r' = all_topics r \<and>
          k \<le> length (remaining r) \<and> remaining r' = drop k (remaining r) \<and>
          (Call_read_next \<notin> set cs \<longrightarrow> k = 0) \<and>
          subseq (map fst (tuples_of vs)) (map rec_topic (take k (remaining r)))"
proof (induction cs arbitrary: r vs s)
  case Nil
  then have "s = Opened r \<and> all_topics r = all_topics r \<and> 0 \<le> length (remaining r) \<and>
      remaining r = drop 0 (remaining r) \<and> (Call_read_next \<notin> set [] \<longrightarrow> (0::nat) = 0) \<and>
      subseq (map fst (tuples_of vs)) (map rec_topic (take 0 (remaining r)))"
    by auto
  then show ?case
    by blast
next
  case (Cons c cs)
  obtain v s1 where c: "py_call T d b c (Opened r) = (v, s1)"
    by (cases "py_call T d b c (Opened r)")
  obtain vs' s2 where cs: "run T d b cs s1 = (vs', s2)"
    by (cases "run T d b cs s1")
  from Cons.prems c cs have s: "s = s2" and vs: "vs = v # vs'"
    by simp_all
  from py_call_Opened [OF c] obtain r1 k1 where r1: "s1 = Opened r1"
    "all_topics r1 = all_topics r" "k1 \<le> length (remaining r)"
    "remaining r1 = drop k1 (remaining r)" "c \<noteq> Call_read_next \<longrightarrow> k1 = 0"
    "subseq (map fst (tuples_of [v])) (map rec_topic (take k1 (remaining r)))"
    by blast
  from Cons.IH [of r1 vs' s2] cs r1(1) obtain r2 k2 where r2: "s2 = Opened r2"
    "all_topics r2 = all_topics r1" "k2 \<le> length (remaining r1)"
    "remaining r2 = drop k2 (remaining r1)" "Call_read_next \<notin> set cs \<longrightarrow> k2 = 0"
    "subseq (map fst (tuples_of vs')) (map rec_topic (take k2 (remaining r1)))"
    by blast
  have t: "take (k1 + k2) (remaining r) = take k1 (remaining r) @ take k2 (remaining r1)"
    by (simp add: take_add r1(4))
  have "subseq (map fst (tuples_of [v]) @ map fst (tuples_of vs'))
      (map rec_topic (take k1 (remaining r)) @ map rec_topic (take k2 (remaining r1)))"
    by (rule list_emb_append_mono [OF r1(6) r2(6)])
  then have e: "subseq (map fst (tuples_of vs)) (map rec_topic (take (k1 + k2) (remaining r)))"
    by (simp add: vs tuples_of_Cons [of v vs'] t)
  from r1 r2 have "s = Opened r2 \<and> all_topics r2 = all_topics r \<and>
      k1 + k2 \<le> length (remaining r) \<and> remaining r2 = drop (k1 + k2) (remaining r) \<and>
      (Call_read_next \<notin> set (c # cs) \<longrightarrow> k1 + k2 = 0)"
    using s by (auto simp: add.commute)
  with e show ?case
    by blast
qed

text \<open>
  C7. After a reader has been opened, and whatever calls have been made on it since
  (records read, filters set or reset), \<open>get_all_topics_and_types\<close> returns the same
  sequence of topic metadata as it does right after \<open>open\<close>, the topic index of the log,
  and leaves the reader (cursor and filter) as it was.
\<close>

theorem get_all_topics_and_types_is_stable:
  assumes "open_bag (rosbag2_cpp_Reader T d b) so co (Reader (rosbag2_cpp_Reader T d b))
      = (Inr (), s0)"
    and "run T d b cs s0 = (vs, s)"
  shows "\<exists>L. b so = Some L \<and>
           get_all_topics_and_types (rosbag2_cpp_Reader T d b) s0
             = (Inr (topics_and_types L), s0) \<and>
           get_all_topics_and_types (rosbag2_cpp_Reader T d b) s
             = (Inr (topics_and_types L), s)"
proof -
  from assms(1) obtain L where L: "b so = Some L"
    and s0: "s0 = Opened \<lparr>all_topics = topics_and_types L, remaining = records L,
                           active_filter = all_pass\<rparr>"
    by (auto simp: Reader_Unopened open_bag_Unopened split: option.splits)
  from run_Opened [OF assms(2) [unfolded s0]] obtain r where "s = Opened r"
    and "all_topics r = topics_and_types L"
    by auto
  with L s0 show ?thesis
    by (simp add: get_all_topics_and_types_Opened)
qed

theorem get_all_topics_and_types_is_stable_witness:
  "\<exists>s0 vs s.
     open_bag (rosbag2_cpp_Reader SequentialReader no_codec example_backends) example_options cdr
       (Reader (rosbag2_cpp_Reader SequentialReader no_codec example_backends)) = (Inr (), s0) \<and>
     run SequentialReader no_codec example_backends
       [Call_set_filter \<lparr>topics = [''sensor'']\<rparr>, Call_read_next] s0 = (vs, s) \<and>
     vs = [Inr PyNone, Inr (PyTuple (''sensor'', [16], 150))] \<and>
     s \<noteq> s0 \<and>
     get_all_topics_and_types (rosbag2_cpp_Reader SequentialReader no_codec example_backends) s0
       = (Inr (topics_and_types example_log), s0) \<and>
     get_all_topics_and_types (rosbag2_cpp_Reader SequentialReader no_codec example_backends) s
       = (Inr (topics_and_types example_log), s)"
proof -
  let ?rd = "rosbag2_cpp_Reader SequentialReader no_codec example_backends"
  let ?fresh = "Opened \<lparr>all_topics = topics_and_types example_log,
                         remaining = records example_log, active_filter = all_pass\<rparr>"
  let ?used = "Opened \<lparr>all_topics = topics_and_types example_log, remaining = [],
                        active_filter = \<lparr>topics = [''sensor'']\<rparr>\<rparr>"
  let ?vs = "[Inr PyNone, Inr (PyTuple (''sensor'', [16], 150))]"
  have o: "open_bag ?rd example_options cdr (Reader ?rd) = (Inr (), ?fresh)"
    by (simp add: call_defs example_backends_def example_options_def)
  have r: "run SequentialReader no_codec example_backends
      [Call_set_filter \<lparr>topics = [''sensor'']\<rparr>, Call_read_next] ?fresh = (?vs, ?used)"
    by (simp add: call_defs example_log_def allowed_def decoded_def)
  have n: "?used \<noteq> ?fresh"
    by (simp add: example_log_def)
  have L: "example_backends example_options = Some example_log"
    by (simp add: example_backends_def example_options_def)
  from get_all_topics_and_types_is_stable [OF o r] L o r n show ?thesis
    by auto
qed

text \<open>
  C9. On a reader that is constructed and not opened, \<open>has_next\<close>, \<open>read_next\<close>,
  \<open>get_all_topics_and_types\<close>, \<open>set_filter\<close> and \<open>reset_filter\<close> fail with the
  invalid-state error and leave the reader unopened. After a successful \<open>open\<close>, a second
  \<open>open\<close> fails with the invalid-state error, at once or after any other calls.
\<close>

theorem unopened_and_reopened_fail:
  "has_next (rosbag2_cpp_Reader T d b) (Reader (rosbag2_cpp_Reader T d b))
     = (Inl InvalidState, Reader (rosbag2_cpp_Reader T d b)) \<and>
   read_next (rosbag2_cpp_Reader T d b) (Reader (rosbag2_cpp_Reader T d b))
     = (Inl InvalidState, Reader (rosbag2_cpp_Reader T d b)) \<and>
   get_all_topics_and_types (rosbag2_cpp_Reader T d b) (Reader (rosbag2_cpp_Reader T d b))
     = (Inl InvalidState, Reader (rosbag2_cpp_Reader T d b)) \<and>
   set_filter (rosbag2_cpp_Reader T d b) F (Reader (rosbag2_cpp_Reader T d b))
     = (Inl InvalidState, Reader (rosbag2_cpp_Reader T d b)) \<and>
   reset_filter (rosbag2_cpp_Reader T d b) (Reader (rosbag2_cpp_Reader T d b))
     = (Inl InvalidState, Reader (rosbag2_cpp_Reader T d b)) \<and>
   (open_bag (rosbag2_cpp_Reader T d b) so co (Reader (rosbag2_cpp_Reader T d b)) = (Inr (), s1) \<and>
    run T d b cs s1 = (vs, s) \<longrightarrow>
      open_bag (rosbag2_cpp_Reader T d b) so' co' s1 = (Inl InvalidState, s1) \<and>
      open_bag (rosbag2_cpp_Reader T d b) so' co' s = (Inl InvalidState, s))"
proof -
  have "open_bag (rosbag2_cpp_Reader T d b) so' co' s1 = (Inl InvalidState, s1) \<and>
      open_bag (rosbag2_cpp_Reader T d b) so' co' s = (Inl InvalidState, s)"
    if o: "open_bag (rosbag2_cpp_Reader T d b) so co (Reader (rosbag2_cpp_Reader T d b))
        = (Inr (), s1)"
      and r: "run T d b cs s1 = (vs, s)"
  proof -
    from o obtain r0 where s1: "s1 = Opened r0"
      by (auto simp: Reader_Unopened open_bag_Unopened split: option.splits)
    from run_Opened [OF r [unfolded s1]] obtain r1 where "s = Opened r1"
      by auto
    with s1 show ?thesis
      by (simp add: open_bag_Opened)
  qed
  then show ?thesis
    by (simp add: Reader_Unopened unopened_calls)
qed

theorem unopened_and_reopened_fail_witness:
  "\<exists>s0 vs s.
     open_bag (rosbag2_cpp_Reader SequentialReader no_codec example_backends) example_options cdr
       (Reader (rosbag2_cpp_Reader SequentialReader no_codec example_backends)) = (Inr (), s0) \<and>
     run SequentialReader no_codec example_backends [Call_has_next, Call_read_next] s0 = (vs, s) \<and>
     vs = [Inr (PyBool True), Inr (PyTuple (''cmd'', [1, 2], 100))] \<and>
     open_bag (rosbag2_cpp_Reader SequentialReader no_codec example_backends) example_options cdr s0
       = (Inl InvalidState, s0) \<and>
     open_bag (rosbag2_cpp_Reader SequentialReader no_codec example_backends) example_options cdr s
       = (Inl InvalidState, s) \<and>
     read_next (rosbag2_cpp_Reader SequentialReader no_codec example_backends)
       (Reader (rosbag2_cpp_Reader SequentialReader no_codec example_backends))
       = (Inl InvalidState, Reader (rosbag2_cpp_Reader SequentialReader no_codec example_backends))"
proof -
  let ?rd = "rosbag2_cpp_Reader SequentialReader no_codec example_backends"
  let ?fresh = "Opened \<lparr>all_topics = topics_and_types example_log,
                         remaining = records example_log, active_filter = all_pass\<rparr>"
  let ?used = "Opened \<lparr>all_topics = topics_and_types example_log,
                        remaining = tl (records example_log), active_filter = all_pass\<rparr>"
  let ?vs = "[Inr (PyBool True), Inr (PyTuple (''cmd'', [1, 2], 100))]"
  have o: "open_bag ?rd example_options cdr (Reader ?rd) = (Inr (), ?fresh)"
    by (simp add: call_defs example_backends_def example_options_def)
  have r: "run SequentialReader no_codec example_backends [Call_has_next, Call_read_next] ?fresh
      = (?vs, ?used)"
    by (simp add: call_defs example_log_def allowed_def all_pass_def decoded_def)
  from unopened_and_reopened_fail
    [where T = SequentialReader and d = no_codec and b = example_backends
       and so = example_options and co = cdr and ?s1.0 = ?fresh
       and cs = "[Call_has_next, Call_read_next]"
       and vs = ?vs and s = ?used and so' = example_options and co' = cdr] o r
  show ?thesis
    by blast
qed

subsection \<open>Resetting the filter\<close>

lemma reset_is_set_all_pass:
  "reset_filter (rosbag2_cpp_Reader T d b) s = set_filter (rosbag2_cpp_Reader T d b) all_pass s"
  by (cases s) (simp_all add: unopened_calls reset_filter_Opened set_filter_Opened)

text \<open>
  C6, as stated, fails for a reader that has read a record: a filter change does not
  rewind the cursor. On the example log, after one \<open>read_next\<close>, \<open>reset_filter\<close> and a
  full iteration give the record on sensor only, while a freshly opened reader gives both
  records.
\<close>

theorem reset_filter_after_read_counterexample:
  "open_bag (rosbag2_cpp_Reader SequentialReader no_codec example_backends) example_options cdr
     (Reader (rosbag2_cpp_Reader SequentialReader no_codec example_backends))
   = (Inr (), Opened \<lparr>all_topics = topics_and_types example_log,
                       remaining = records example_log, active_filter = all_pass\<rparr>) \<and>
   read_next (rosbag2_cpp_Reader SequentialReader no_codec example_backends)
     (Opened \<lparr>all_topics = topics_and_types example_log, remaining = records example_log,
              active_filter = all_pass\<rparr>)
   = (Inr (''cmd'', [1, 2], 100),
      Opened \<lparr>all_topics = topics_and_types example_log,
              remaining = tl (records example_log), active_filter = all_pass\<rparr>) \<and>
   reset_filter (rosbag2_cpp_Reader SequentialReader no_codec example_backends)
     (Opened \<lparr>all_topics = topics_and_types example_log, remaining = tl (records example_log),
              active_filter = all_pass\<rparr>)
   = (Inr (), Opened \<lparr>all_topics = topics_and_types example_log,
                       remaining = tl (records example_log), active_filter = all_pass\<rparr>) \<and>
   read_all SequentialReader no_codec example_backends
     (Opened \<lparr>all_topics = topics_and_types example_log, remaining = tl (records example_log),
              active_filter = all_pass\<rparr>)
   = Inr [(''sensor'', [16], 150)] \<and>
   read_all SequentialReader no_codec example_backends
     (Opened \<lparr>all_topics = topics_and_types example_log, remaining = records example_log,
              active_filter = all_pass\<rparr>)
   = Inr [(''cmd'', [1, 2], 100), (''sensor'', [16], 150)] \<and>
   read_all SequentialReader no_codec example_backends
     (Opened \<lparr>all_topics = topics_and_types example_log, remaining = tl (records example_log),
              active_filter = all_pass\<rparr>)
   \<noteq> read_all SequentialReader no_codec example_backends
       (Opened \<lparr>all_topics = topics_and_types example_log, remaining = records example_log,
                active_filter = all_pass\<rparr>)"
  by (simp add: call_defs read_all_plain record_tuple_def example_backends_def
      example_options_def example_log_def allowed_def all_pass_def decoded_def)

text \<open>
  C6, amended. \<open>reset_filter\<close> does what \<open>set_filter\<close> with the all-pass filter does.
  When \<open>read_next\<close> has not been called since \<open>open\<close>, whatever filters were set, the
  reader after \<open>reset_filter\<close> is in the state of a freshly opened reader, and a full
  iteration yields the record sequence it yields there. In general the cursor has passed
  the first \<open>n\<close> records of the log, among them, in order, every record that \<open>read_next\<close>
  has returned; \<open>reset_filter\<close> and a full iteration then yield the records of the log
  from the cursor on, in the order of the log: their topics for either reader, and for
  the plain reader their topics, payloads and time stamps.
\<close>

theorem reset_filter_then_read_all:
  assumes "open_bag (rosbag2_cpp_Reader T d b) so co (Reader (rosbag2_cpp_Reader T d b))
      = (Inr (), s0)"
    and "run T d b cs s0 = (vs, s)"
  shows "reset_filter (rosbag2_cpp_Reader T d b) s
       = set_filter (rosbag2_cpp_Reader T d b) all_pass s \<and>
     (Call_read_next \<notin> set cs \<longrightarrow>
        reset_filter (rosbag2_cpp_Reader T d b) s = (Inr (), s0) \<and>
        read_all T d b (snd (reset_filter (rosbag2_cpp_Reader T d b) s)) = read_all T d b s0) \<and>
     (\<exists>L n r.
        b so = Some L \<and> n \<le> length (records L) \<and>
        s = Opened r \<and> remaining r = drop n (records L) \<and>
        subseq (map fst (tuples_of vs)) (map rec_topic (take n (records L))) \<and>
        reset_filter (rosbag2_cpp_Reader T d b) s
          = (Inr (), Opened (r\<lparr>active_filter := all_pass\<rparr>)) \<and>
        (\<forall>out. read_all T d b (snd (reset_filter (rosbag2_cpp_Reader T d b) s)) = Inr out \<longrightarrow>
           map fst out = map rec_topic (drop n (records L))) \<and>
        read_all SequentialReader d b (snd (reset_filter (rosbag2_cpp_Reader T d b) s))
          = (if list_all (\<lambda>x. utf8_well_formed (map of_char (rec_topic x))) (drop n (records L))
             then Inr (map record_tuple (drop n (records L)))
             else Inl UnicodeDecodeError))"
proof -
  from assms(1) obtain L where L: "b so = Some L"
    and s0: "s0 = Opened \<lparr>all_topics = topics_and_types L, remaining = records L,
                           active_filter = all_pass\<rparr>"
    by (auto simp: Reader_Unopened open_bag_Unopened split: option.splits)
  from run_Opened [OF assms(2) [unfolded s0]] obtain r n where s: "s = Opened r"
    and t: "all_topics r = topics_and_types L"
    and n: "n \<le> length (records L)" "remaining r = drop n (records L)"
    and c: "Call_read_next \<notin> set cs \<longrightarrow> n = 0"
    and e: "subseq (map fst (tuples_of vs)) (map rec_topic (take n (records L)))"
    by auto
  let ?r = "r\<lparr>active_filter := all_pass\<rparr>"
  have 1: "reset_filter (rosbag2_cpp_Reader T d b) s
      = set_filter (rosbag2_cpp_Reader T d b) all_pass s"
    by (rule reset_is_set_all_pass)
  have 2: "reset_filter (rosbag2_cpp_Reader T d b) s = (Inr (), Opened ?r)"
    by (simp add: s reset_filter_Opened)
  have f: "filter (\<lambda>x. allowed (active_filter ?r) (rec_topic x)) (remaining ?r)
      = drop n (records L)"
    by (simp add: allowed_def all_pass_def n(2))
  have 3: "read_all SequentialReader d b (Opened ?r)
      = (if list_all (\<lambda>x. utf8_well_formed (map of_char (rec_topic x))) (drop n (records L))
         then Inr (map record_tuple (drop n (records L)))
         else Inl UnicodeDecodeError)"
    using read_all_plain [of d b ?r] by (simp only: f)
  have 4: "map fst out = map rec_topic (drop n (records L))"
    if "read_all T d b (Opened ?r) = Inr out" for out
    using read_all_topics [OF that] by (simp only: f)
  have 5: "Opened ?r = s0" if "Call_read_next \<notin> set cs"
    using that c t n(2) by (simp add: s0)
  from L n s e 1 2 3 4 5 show ?thesis
    by auto
qed

theorem reset_filter_then_read_all_witness:
  "(\<exists>s0 vs s.
      open_bag (rosbag2_cpp_Reader SequentialReader no_codec example_backends) example_options cdr
        (Reader (rosbag2_cpp_Reader SequentialReader no_codec example_backends)) = (Inr (), s0) \<and>
      run SequentialReader no_codec example_backends
        [Call_set_filter \<lparr>topics = [''sensor'']\<rparr>, Call_has_next] s0 = (vs, s) \<and>
      s \<noteq> s0 \<and>
      reset_filter (rosbag2_cpp_Reader SequentialReader no_codec example_backends) s
        = (Inr (), s0) \<and>
      read_all SequentialReader no_codec example_backends
          (snd (reset_filter (rosbag2_cpp_Reader SequentialReader no_codec example_backends) s))
        = read_all SequentialReader no_codec example_backends s0) \<and>
   (\<exists>s0 s.
      open_bag (rosbag2_cpp_Reader SequentialReader no_codec example_backends) example_options cdr
        (Reader (rosbag2_cpp_Reader SequentialReader no_codec example_backends)) = (Inr (), s0) \<and>
      run SequentialReader no_codec example_backends
        [Call_set_filter \<lparr>topics = [''none'']\<rparr>, Call_read_next] s0
        = ([Inr PyNone, Inl EndOfStream], s) \<and>
      read_all SequentialReader no_codec example_backends
          (snd (reset_filter (rosbag2_cpp_Reader SequentialReader no_codec example_backends) s))
        = Inr [])"
proof -
  let ?rd = "rosbag2_cpp_Reader SequentialReader no_codec example_backends"
  let ?fresh = "Opened \<lparr>all_topics = topics_and_types example_log,
                         remaining = records example_log, active_filter = all_pass\<rparr>"
  let ?r = "\<lparr>all_topics = topics_and_types example_log, remaining = records example_log,
             active_filter = \<lparr>topics = [''sensor'']\<rparr>\<rparr>"
  let ?cs = "[Call_set_filter \<lparr>topics = [''sensor'']\<rparr>, Call_has_next]"
  let ?vs = "[Inr PyNone, Inr (PyBool True)]"
  let ?q = "\<lparr>all_topics = topics_and_types example_log, remaining = [],
             active_filter = \<lparr>topics = [''none'']\<rparr>\<rparr>"
  let ?ds = "[Call_set_filter \<lparr>topics = [''none'']\<rparr>, Call_read_next]"
  let ?ws = "[Inr PyNone, Inl EndOfStream]"
  have o: "open_bag ?rd example_options cdr (Reader ?rd) = (Inr (), ?fresh)"
    by (simp add: call_defs example_backends_def example_options_def)
  have r: "run SequentialReader no_codec example_backends ?cs ?fresh = (?vs, Opened ?r)"
    by (simp add: call_defs example_log_def allowed_def)
  have n: "Opened ?r \<noteq> ?fresh"
    by (simp add: all_pass_def)
  have c: "Call_read_next \<notin> set ?cs"
    by simp
  from reset_filter_then_read_all [OF o r, THEN conjunct2, THEN conjunct1] c
  have "reset_filter ?rd (Opened ?r) = (Inr (), ?fresh) \<and>
      read_all SequentialReader no_codec example_backends (snd (reset_filter ?rd (Opened ?r)))
        = read_all SequentialReader no_codec example_backends ?fresh"
    by blast
  with o r n have first: "\<exists>s0 vs s.
      open_bag ?rd example_options cdr (Reader ?rd) = (Inr (), s0) \<and>
      run SequentialReader no_codec example_backends ?cs s0 = (vs, s) \<and>
      s \<noteq> s0 \<and>
      reset_filter ?rd s = (Inr (), s0) \<and>
      read_all SequentialReader no_codec example_backends (snd (reset_filter ?rd s))
        = read_all SequentialReader no_codec example_backends s0"
    by blast
  have q: "run SequentialReader no_codec example_backends ?ds ?fresh = (?ws, Opened ?q)"
    by (simp add: call_defs example_log_def allowed_def)
  from reset_filter_then_read_all [OF o q, THEN conjunct2, THEN conjunct2]
  obtain L k r' where all: "example_backends example_options = Some L \<and>
      k \<le> length (records L) \<and>
      Opened ?q = Opened r' \<and>
      remaining r' = drop k (records L) \<and>
      subseq (map fst (tuples_of ?ws)) (map rec_topic (take k (records L))) \<and>
      reset_filter ?rd (Opened ?q) = (Inr (), Opened (r'\<lparr>active_filter := all_pass\<rparr>)) \<and>
      (\<forall>out. read_all SequentialReader no_codec example_backends
               (snd (reset_filter ?rd (Opened ?q))) = Inr out \<longrightarrow>
             map fst out = map rec_topic (drop k (records L))) \<and>
      read_all SequentialReader no_codec example_backends (snd (reset_filter ?rd (Opened ?q)))
        = (if list_all (\<lambda>x. utf8_well_formed (map of_char (rec_topic x))) (drop k (records L))
           then Inr (map record_tuple (drop k (records L)))
           else Inl UnicodeDecodeError)"
    by (elim exE) (rule that)
  note e1 = all [THEN conjunct2, THEN conjunct2, THEN conjunct1]
  note e2 = all [THEN conjunct2, THEN conjunct2, THEN conjunct2, THEN conjunct1]
  note a = all [THEN conjunct2, THEN conjunct2, THEN conjunct2, THEN conjunct2, THEN conjunct2,
      THEN conjunct2, THEN conjunct2]
  from e1 have "r' = ?q"
    by simp
  with e2 have "drop k (records L) = []"
    by simp
  with a have "read_all SequentialReader no_codec example_backends
      (snd (reset_filter ?rd (Opened ?q))) = Inr []"
    by simp
  with o q have second: "\<exists>s0 s.
      open_bag ?rd example_options cdr (Reader ?rd) = (Inr (), s0) \<and>
      run SequentialReader no_codec example_backends ?ds s0 = (?ws, s) \<and>
      read_all SequentialReader no_codec example_backends (snd (reset_filter ?rd s)) = Inr []"
    by blast
  from first second show ?thesis
    by (rule conjI)
qed

end
